theory Spec2Isabelle
  imports Complex_Main "HOL-Library.Word"
begin

section \<open>The C types of sample.c\<close>

text \<open>
  \<^verbatim>\<open>int32_t\<close> is a 32-bit two's complement integer; \<^verbatim>\<open>int\<close>, \<^verbatim>\<open>BOOL\<close> and
  \<^verbatim>\<open>DWORD\<close> are 32 bits wide on every target of the library.  ISO C leaves the
  overflow of a signed addition undefined; the embedding takes the result the
  targets' add instruction delivers, the sum modulo \<open>2^32\<close>, which is \<open>+\<close> on
  \<open>32 word\<close>.  A \<^verbatim>\<open>void *\<close> is an address.
\<close>

type_synonym int32_t = "32 word"
type_synonym c_int = "32 word"
type_synonym BOOL = "32 word"
type_synonym DWORD = "32 word"

datatype void_ptr = Ptr (addr: nat)

section \<open>IEEE-754 binary64\<close>

text \<open>
  A \<^verbatim>\<open>double\<close> is a binary64 datum: a finite number \<open>(-1)^s * m * 2^e\<close> with
  \<open>m < 2^53\<close> and \<open>-1074 \<le> e \<le> 971\<close>, an infinity, or a NaN.  The finite
  numbers are kept in the form the format stores them in: either normal
  (\<open>2^52 \<le> m\<close>) or with the least exponent \<open>-1074\<close> (subnormal numbers and the
  two zeros).
\<close>

datatype double = is_finite: DFinite (dsign: bool) (mant: nat) (expo: int) | DInf bool | DNaN

definition is_binary64 :: "double \<Rightarrow> bool" where
  "is_binary64 d =
     (case d of
        DFinite s m e \<Rightarrow>
          m < 2 ^ 53 \<and> - 1074 \<le> e \<and> e \<le> 971 \<and> (if e = - 1074 then True else 2 ^ 52 \<le> m)
      | _ \<Rightarrow> True)"

text \<open>The number a finite double stands for, as a rational.\<close>

fun valof :: "double \<Rightarrow> rat" where
  "valof (DFinite s m e) = (if s then - 1 else 1) * of_nat m * 2 powi e"
| "valof _ = 0"

text \<open>The number of binary digits of a natural number.\<close>

fun bitlen :: "nat \<Rightarrow> nat" where
  "bitlen n = (if n = 0 then 0 else Suc (bitlen (n div 2)))"

declare bitlen.simps [simp del]

text \<open>
  \<open>round_even m k\<close> is \<open>m / 2^k\<close> rounded to the nearest integer, a tie going to
  the even neighbour: the default rounding direction of IEEE-754.
\<close>

definition round_even :: "nat \<Rightarrow> nat \<Rightarrow> nat" where
  "round_even m k =
     (let q = m div 2 ^ k; r = m mod 2 ^ k
      in if 2 ^ k < 2 * r then q + 1
         else if 2 * r = 2 ^ k \<and> odd q then q + 1
         else q)"

text \<open>
  Every arithmetic operation of IEEE-754 delivers the exact result rounded to
  the format.  The exact results of sums and products of doubles are dyadic
  numbers \<open>(-1)^s * m * 2^e\<close> with \<open>m\<close> and \<open>e\<close> unbounded; \<open>round_double\<close> rounds
  such a number to binary64, to nearest with ties to even, overflowing to an
  infinity and underflowing gradually.
\<close>

definition round_double :: "bool \<Rightarrow> nat \<Rightarrow> int \<Rightarrow> double" where
  "round_double s m e =
     (if m = 0 then DFinite s 0 (- 1074)
      else
        let t = max (e + int (bitlen m) - 53) (- 1074) in
        if t \<le> e then
          (if 971 < t then DInf s else DFinite s (m * 2 ^ nat (e - t)) t)
        else
          let q = round_even m (nat (t - e)) in
          if q = 2 ^ 53 then (if 971 < t + 1 then DInf s else DFinite s (2 ^ 52) (t + 1))
          else if 971 < t then DInf s
          else DFinite s q t)"

text \<open>The conversion of an \<^verbatim>\<open>int32_t\<close> to \<^verbatim>\<open>double\<close>.\<close>

definition double_of_int32 :: "int32_t \<Rightarrow> double" where
  "double_of_int32 x = round_double (sint x < 0) (nat \<bar>sint x\<bar>) 0"

text \<open>Multiplication of doubles.\<close>

fun dmul :: "double \<Rightarrow> double \<Rightarrow> double" where
  "dmul DNaN _ = DNaN"
| "dmul _ DNaN = DNaN"
| "dmul (DInf s) (DInf t) = DInf (s \<noteq> t)"
| "dmul (DInf s) (DFinite t n f) = (if n = 0 then DNaN else DInf (s \<noteq> t))"
| "dmul (DFinite s m e) (DInf t) = (if m = 0 then DNaN else DInf (s \<noteq> t))"
| "dmul (DFinite s m e) (DFinite t n f) = round_double (s \<noteq> t) (m * n) (e + f)"

text \<open>
  Addition of doubles.  An exact sum of zero is \<open>+0\<close> unless both operands are
  negative (which, the sum being zero, makes both \<open>-0\<close>).
\<close>

definition signed :: "bool \<Rightarrow> nat \<Rightarrow> int" where
  "signed s m = (if s then - int m else int m)"

fun dadd :: "double \<Rightarrow> double \<Rightarrow> double" where
  "dadd DNaN _ = DNaN"
| "dadd _ DNaN = DNaN"
| "dadd (DInf s) (DInf t) = (if s = t then DInf s else DNaN)"
| "dadd (DInf s) (DFinite t n f) = DInf s"
| "dadd (DFinite s m e) (DInf t) = DInf t"
| "dadd (DFinite s m e) (DFinite t n f) =
     (let g = min e f;
          z = signed s (m * 2 ^ nat (e - g)) + signed t (n * 2 ^ nat (f - g))
      in if z = 0 then DFinite (s \<and> t) 0 (- 1074)
         else round_double (z < 0) (nat \<bar>z\<bar>) g)"

text \<open>The literal \<^verbatim>\<open>0.5\<close>, that is \<open>2^52 * 2^(-53)\<close>.\<close>

definition d_half :: double where
  "d_half = DFinite False (2 ^ 52) (- 53)"

section \<open>The exported functions\<close>

text \<open>
  \<^verbatim>\<open>NATIVE_API(double) avg(int32_t a, int32_t b) { return (a + b) * 0.5; }\<close>

  Both operands of \<^verbatim>\<open>+\<close> have type \<^verbatim>\<open>int\<close>, so the sum is an integer sum; the
  usual arithmetic conversions then convert it to \<^verbatim>\<open>double\<close> for the product
  with the literal.
\<close>

definition avg :: "int32_t \<Rightarrow> int32_t \<Rightarrow> double" where
  "avg a b = dmul (double_of_int32 (a + b)) d_half"

text \<open>
  \<^verbatim>\<open>NATIVE_API(double) Java_deltix_NativeUtilsSample_00024Imports_avg(void *env,
  void *obj, int32_t a, int32_t b) { return avg(a, b); }\<close>
\<close>

definition Java_deltix_NativeUtilsSample_00024Imports_avg ::
  "void_ptr \<Rightarrow> void_ptr \<Rightarrow> int32_t \<Rightarrow> int32_t \<Rightarrow> double" where
  "Java_deltix_NativeUtilsSample_00024Imports_avg env obj a b = avg a b"


text \<open>
  \<^verbatim>\<open>NATIVE_API(int) ptrSize() { return sizeof(intptr_t); }\<close>

  \<^verbatim>\<open>sizeof(intptr_t)\<close> is a constant the compiler fixes for the build target, so
  the build target is a parameter of the model.  A target is described by the
  width of its pointers in bits; \<^verbatim>\<open>sizeof\<close> counts bytes of 8 bits, and the
  \<^verbatim>\<open>size_t\<close> value is converted to the \<^verbatim>\<open>int\<close> the function returns.
\<close>

record target =
  pointer_bits :: nat

definition sizeof_intptr_t :: "target \<Rightarrow> nat" where
  "sizeof_intptr_t t = pointer_bits t div 8"

definition ptrSize :: "target \<Rightarrow> c_int" where
  "ptrSize t = word_of_nat (sizeof_intptr_t t)"

text \<open>
  \<^verbatim>\<open>BOOL WINAPI DllMain(void *instance, DWORD reason, void *reserved) { return 1; }\<close>,
  compiled only where \<^verbatim>\<open>_WIN32\<close> is defined.
\<close>

definition DllMain :: "void_ptr \<Rightarrow> DWORD \<Rightarrow> void_ptr \<Rightarrow> BOOL" where
  "DllMain instance reason reserved = 1"

section \<open>Calls into the library\<close>

text \<open>
  A caller sees the library through calls of its exported symbols.  A call runs
  in a process whose memory \<open>mem\<close> (of any type) it could read and write; it
  delivers the returned value and the memory it leaves behind.  No function of
  sample.c reads or writes an object outside its parameters, so every call
  hands the memory on as it found it.
\<close>

datatype call =
    Call_avg int32_t int32_t
  | Call_ptrSize
  | Call_Java_avg void_ptr void_ptr int32_t int32_t
  | Call_DllMain void_ptr DWORD void_ptr

datatype retval = Ret_double double | Ret_int c_int

fun invoke :: "target \<Rightarrow> call \<Rightarrow> 'mem \<Rightarrow> retval \<times> 'mem" where
  "invoke t (Call_avg a b) mem = (Ret_double (avg a b), mem)"
| "invoke t Call_ptrSize mem = (Ret_int (ptrSize t), mem)"
| "invoke t (Call_Java_avg env obj a b) mem =
     (Ret_double (Java_deltix_NativeUtilsSample_00024Imports_avg env obj a b), mem)"
| "invoke t (Call_DllMain instance reason reserved) mem =
     (Ret_int (DllMain instance reason reserved), mem)"

section \<open>The function bodies as program text\<close>

text \<open>
  Whether a function has a side effect is a property of its text, so the bodies
  of sample.c are also given as terms of the fragment of C they are written
  in: parameters, literals, \<^verbatim>\<open>+\<close>, \<^verbatim>\<open>*\<close>, \<^verbatim>\<open>sizeof(intptr_t)\<close> and calls.  The
  fragment has two more forms, which sample.c does not use: the read of a
  global object and the assignment to one.  With them a function can depend on
  the memory it runs in and can change it.
\<close>

datatype cval = VInt c_int | VDouble double | VPtr void_ptr | VSize nat

datatype expr =
    Param nat
  | Lit cval
  | Add expr expr
  | Mul expr expr
  | SizeofIntptr
  | Call string "expr list"
  | Load string
  | Assign string expr

datatype cty = TInt | TDouble

record cfun =
  ret :: cty
  nparams :: nat
  body :: expr

type_synonym memory = "string \<Rightarrow> cval option"

text \<open>
  The usual arithmetic conversions: two \<^verbatim>\<open>int\<close> operands are added and
  multiplied as 32-bit integers; if one operand is a \<^verbatim>\<open>double\<close> the other is
  converted to \<^verbatim>\<open>double\<close>.  \<open>convert\<close> is the conversion of the returned value
  to the function's return type.
\<close>

fun c_add :: "cval \<Rightarrow> cval \<Rightarrow> cval option" where
  "c_add (VInt x) (VInt y) = Some (VInt (x + y))"
| "c_add (VInt x) (VDouble y) = Some (VDouble (dadd (double_of_int32 x) y))"
| "c_add (VDouble x) (VInt y) = Some (VDouble (dadd x (double_of_int32 y)))"
| "c_add (VDouble x) (VDouble y) = Some (VDouble (dadd x y))"
| "c_add _ _ = None"

fun c_mul :: "cval \<Rightarrow> cval \<Rightarrow> cval option" where
  "c_mul (VInt x) (VInt y) = Some (VInt (x * y))"
| "c_mul (VInt x) (VDouble y) = Some (VDouble (dmul (double_of_int32 x) y))"
| "c_mul (VDouble x) (VInt y) = Some (VDouble (dmul x (double_of_int32 y)))"
| "c_mul (VDouble x) (VDouble y) = Some (VDouble (dmul x y))"
| "c_mul _ _ = None"

fun convert :: "cty \<Rightarrow> cval \<Rightarrow> cval option" where
  "convert TInt (VInt x) = Some (VInt x)"
| "convert TInt (VSize n) = Some (VInt (word_of_nat n))"
| "convert TDouble (VDouble d) = Some (VDouble d)"
| "convert TDouble (VInt x) = Some (VDouble (double_of_int32 x))"
| "convert _ _ = None"

text \<open>
  \<open>eval t p n args e mem\<close> evaluates \<open>e\<close> in the function table \<open>p\<close>, with the
  actual parameters \<open>args\<close>, in the memory \<open>mem\<close>; it delivers the value and the
  memory left behind, or \<open>None\<close> when the expression is ill-typed, names an
  unknown function or object, or nests calls deeper than \<open>n\<close>.  Operands are
  evaluated from left to right (C leaves the order open).
\<close>

fun eval :: "target \<Rightarrow> (string \<times> cfun) list \<Rightarrow> nat \<Rightarrow> cval list \<Rightarrow> expr \<Rightarrow> memory
             \<Rightarrow> (cval \<times> memory) option"
  and evals :: "target \<Rightarrow> (string \<times> cfun) list \<Rightarrow> nat \<Rightarrow> cval list \<Rightarrow> expr list \<Rightarrow> memory
             \<Rightarrow> (cval list \<times> memory) option"
where
  "eval t p n args (Param i) mem = (if i < length args then Some (args ! i, mem) else None)"
| "eval t p n args (Lit v) mem = Some (v, mem)"
| "eval t p n args (Add e1 e2) mem =
     (case eval t p n args e1 mem of
        None \<Rightarrow> None
      | Some (v1, mem1) \<Rightarrow>
          (case eval t p n args e2 mem1 of
             None \<Rightarrow> None
           | Some (v2, mem2) \<Rightarrow> map_option (\<lambda>v. (v, mem2)) (c_add v1 v2)))"
| "eval t p n args (Mul e1 e2) mem =
     (case eval t p n args e1 mem of
        None \<Rightarrow> None
      | Some (v1, mem1) \<Rightarrow>
          (case eval t p n args e2 mem1 of
             None \<Rightarrow> None
           | Some (v2, mem2) \<Rightarrow> map_option (\<lambda>v. (v, mem2)) (c_mul v1 v2)))"
| "eval t p n args SizeofIntptr mem = Some (VSize (sizeof_intptr_t t), mem)"
| "eval t p 0 args (Call f es) mem = None"
| "eval t p (Suc n) args (Call f es) mem =
     (case evals t p (Suc n) args es mem of
        None \<Rightarrow> None
      | Some (vs, mem1) \<Rightarrow>
          (case map_of p f of
             None \<Rightarrow> None
           | Some fn \<Rightarrow>
               if length vs = nparams fn then
                 (case eval t p n vs (body fn) mem1 of
                    None \<Rightarrow> None
                  | Some (v, mem2) \<Rightarrow> map_option (\<lambda>r. (r, mem2)) (convert (ret fn) v))
               else None))"
| "eval t p n args (Load g) mem = map_option (\<lambda>v. (v, mem)) (mem g)"
| "eval t p n args (Assign g e) mem =
     (case eval t p n args e mem of
        None \<Rightarrow> None
      | Some (v, mem1) \<Rightarrow> Some (v, mem1(g \<mapsto> v)))"
| "evals t p n args [] mem = Some ([], mem)"
| "evals t p n args (e # es) mem =
     (case eval t p n args e mem of
        None \<Rightarrow> None
      | Some (v, mem1) \<Rightarrow>
          (case evals t p n args es mem1 of
             None \<Rightarrow> None
           | Some (vs, mem2) \<Rightarrow> Some (v # vs, mem2)))"

text \<open>
  The four functions of sample.c, each with its return type, its number of
  parameters and the expression of its \<^verbatim>\<open>return\<close> statement.
\<close>

definition sample_c :: "(string \<times> cfun) list" where
  "sample_c =
     [(''DllMain'', \<lparr>ret = TInt, nparams = 3, body = Lit (VInt 1)\<rparr>),
      (''avg'', \<lparr>ret = TDouble, nparams = 2,
                 body = Mul (Add (Param 0) (Param 1)) (Lit (VDouble d_half))\<rparr>),
      (''ptrSize'', \<lparr>ret = TInt, nparams = 0, body = SizeofIntptr\<rparr>),
      (''Java_deltix_NativeUtilsSample_00024Imports_avg'',
         \<lparr>ret = TDouble, nparams = 4, body = Call ''avg'' [Param 2, Param 3]\<rparr>)]"

text \<open>An expression is free of effects if no read or write of a global object occurs in it.\<close>

fun effect_free :: "expr \<Rightarrow> bool" where
  "effect_free (Param i) = True"
| "effect_free (Lit v) = True"
| "effect_free (Add e1 e2) = (effect_free e1 \<and> effect_free e2)"
| "effect_free (Mul e1 e2) = (effect_free e1 \<and> effect_free e2)"
| "effect_free SizeofIntptr = True"
| "effect_free (Call f es) = list_all effect_free es"
| "effect_free (Load g) = False"
| "effect_free (Assign g e) = False"

definition effect_free_program :: "(string \<times> cfun) list \<Rightarrow> bool" where
  "effect_free_program p = list_all (\<lambda>(f, fn). effect_free (body fn)) p"

text \<open>
  A call from outside names a symbol and passes values.  \<open>exec_calls\<close> performs
  a sequence of calls on one memory, one after the other: the order in which a
  scheduler lets the calls of any number of threads take place.
\<close>

fun symbol :: "call \<Rightarrow> string" where
  "symbol (Call_avg a b) = ''avg''"
| "symbol Call_ptrSize = ''ptrSize''"
| "symbol (Call_Java_avg env obj a b) = ''Java_deltix_NativeUtilsSample_00024Imports_avg''"
| "symbol (Call_DllMain instance reason reserved) = ''DllMain''"

fun arguments :: "call \<Rightarrow> cval list" where
  "arguments (Call_avg a b) = [VInt a, VInt b]"
| "arguments Call_ptrSize = []"
| "arguments (Call_Java_avg env obj a b) = [VPtr env, VPtr obj, VInt a, VInt b]"
| "arguments (Call_DllMain instance reason reserved) = [VPtr instance, VInt reason, VPtr reserved]"

definition exec_call :: "target \<Rightarrow> nat \<Rightarrow> call \<Rightarrow> memory \<Rightarrow> (cval \<times> memory) option" where
  "exec_call t n c mem = eval t sample_c n [] (Call (symbol c) (map Lit (arguments c))) mem"

fun exec_calls :: "target \<Rightarrow> nat \<Rightarrow> call list \<Rightarrow> memory \<Rightarrow> (cval list \<times> memory) option" where
  "exec_calls t n [] mem = Some ([], mem)"
| "exec_calls t n (c # cs) mem =
     (case exec_call t n c mem of
        None \<Rightarrow> None
      | Some (v, mem1) \<Rightarrow>
          (case exec_calls t n cs mem1 of
             None \<Rightarrow> None
           | Some (vs, mem2) \<Rightarrow> Some (v # vs, mem2)))"

text \<open>The value each export returns, by the functions of the previous sections.\<close>

fun returned :: "target \<Rightarrow> call \<Rightarrow> cval" where
  "returned t (Call_avg a b) = VDouble (avg a b)"
| "returned t Call_ptrSize = VInt (ptrSize t)"
| "returned t (Call_Java_avg env obj a b) =
     VDouble (Java_deltix_NativeUtilsSample_00024Imports_avg env obj a b)"
| "returned t (Call_DllMain instance reason reserved) = VInt (DllMain instance reason reserved)"

section \<open>Binary digits\<close>

lemma bitlen_0 [simp]: "bitlen 0 = 0"
  by (simp add: bitlen.simps)

lemma bitlen_pos: "0 < n \<Longrightarrow> bitlen n = Suc (bitlen (n div 2))"
  by (simp add: bitlen.simps)

lemma bitlen_bounds: "0 < n \<Longrightarrow> 2 ^ (bitlen n - 1) \<le> n \<and> n < 2 ^ bitlen n"
proof (induction n rule: bitlen.induct)
  case (1 n)
  show ?case
  proof (cases "n div 2 = 0")
    case True
    with 1 have "n = 1" by (simp add: div_eq_0_iff) 
    then show ?thesis by (simp add: bitlen_pos)
  next
    case False
    then have pos: "0 < n div 2" by simp
    with 1 have ih: "2 ^ (bitlen (n div 2) - 1) \<le> n div 2" "n div 2 < 2 ^ bitlen (n div 2)"
      by simp_all
    have bl: "bitlen n = Suc (bitlen (n div 2))" using 1 by (simp add: bitlen_pos)
    have "0 < bitlen (n div 2)" using pos by (simp add: bitlen_pos)
    then obtain j where j: "bitlen (n div 2) = Suc j" by (cases "bitlen (n div 2)") auto
    have "2 * (n div 2) \<le> n" "n < 2 * (n div 2) + 2" by arith+
    with ih show ?thesis unfolding bl j
      by (simp del: mult_2 add: algebra_simps) 
  qed
qed

lemma bitlen_eqI: "2 ^ k \<le> n \<Longrightarrow> n < 2 ^ Suc k \<Longrightarrow> bitlen n = Suc k"
proof (induction k arbitrary: n)
  case 0
  then have "n = 1" by simp
  then show ?case by (simp add: bitlen_pos)
next
  case (Suc k)
  then have "2 ^ k \<le> n div 2" "n div 2 < 2 ^ Suc k" by simp_all
  then have "bitlen (n div 2) = Suc k" by (rule Suc.IH)
  moreover have "0 < n" using Suc.prems(1) by (cases n) simp_all
  ultimately show ?case by (simp add: bitlen_pos)
qed

lemma bitlen_mult_pow2: "0 < m \<Longrightarrow> bitlen (m * 2 ^ k) = bitlen m + k"
  by (induction k) (simp_all add: bitlen_pos[of "_ * _"])

lemma bitlen_le: "m < 2 ^ k \<Longrightarrow> bitlen m \<le> k"
proof (cases "m = 0")
  case False
  assume "m < 2 ^ k"
  with False bitlen_bounds[of m] have "(2::nat) ^ (bitlen m - 1) < 2 ^ k"
    by (meson le_less_trans not_gr_zero)
  then have "bitlen m - 1 < k" by simp
  then show ?thesis by simp
qed simp

lemma round_even_exact: "round_even (q * 2 ^ j) j = q"
  by (simp add: round_even_def)

lemma scaled_below:
  assumes "0 < m" and l53: "bitlen m \<le> 53"
  shows "m * 2 ^ (53 - bitlen m) < 2 ^ 53" and "2 ^ 52 \<le> m * 2 ^ (53 - bitlen m)"
proof -
  let ?l = "bitlen m"
  from assms bitlen_bounds[of m] have b: "2 ^ (?l - 1) \<le> m" "m < 2 ^ ?l" by simp_all
  have "0 < ?l" using assms(1) by (simp add: bitlen_pos)
  have "m * 2 ^ (53 - ?l) < 2 ^ ?l * 2 ^ (53 - ?l)" using b(2) by simp
  also have "\<dots> = 2 ^ 53" using l53 by (simp add: power_add[symmetric])
  finally show "m * 2 ^ (53 - ?l) < 2 ^ 53" .
  have "(2::nat) ^ 52 = 2 ^ (?l - 1) * 2 ^ (53 - ?l)"
    using l53 \<open>0 < ?l\<close> by (simp add: power_add[symmetric])
  also have "\<dots> \<le> m * 2 ^ (53 - ?l)" using b(1) by simp
  finally show "2 ^ 52 \<le> m * 2 ^ (53 - ?l)" .
qed

lemma round_double_exact:
  assumes m: "0 < m" "m < 2 ^ 53"
    and lo: "- 1074 \<le> e + int (bitlen m) - 53"
    and hi: "e + int (bitlen m) - 53 \<le> 971"
  shows "round_double s (m * 2 ^ k) (e - int k)
         = DFinite s (m * 2 ^ (53 - bitlen m)) (e + int (bitlen m) - 53)"
proof -
  let ?l = "bitlen m"
  have l53: "?l \<le> 53" using m(2) by (rule bitlen_le)
  have bl: "bitlen (m * 2 ^ k) = ?l + k" using m(1) by (rule bitlen_mult_pow2)
  have t: "max (e - int k + int (bitlen (m * 2 ^ k)) - 53) (- 1074) = e + int ?l - 53"
    using lo by (simp add: bl)
  have nz: "m * 2 ^ k \<noteq> 0" using m(1) by simp
  show ?thesis
  proof (cases "k + ?l \<le> 53")
    case True
    then have n: "nat (e - int k - (e + int ?l - 53)) = 53 - ?l - k" by simp
    have le: "e + int ?l - 53 \<le> e - int k" using True by simp
    have eq: "m * 2 ^ k * 2 ^ (53 - ?l - k) = m * 2 ^ (53 - ?l)"
      using True by (simp add: power_add[symmetric])
    show ?thesis unfolding round_double_def Let_def t n eq
      using hi nz le by simp
  next
    case False
    define j where "j = k + ?l - 53"
    have n: "nat (e + int ?l - 53 - (e - int k)) = j" using False by (simp add: j_def)
    have k: "k = (53 - ?l) + j" using False l53 by (simp add: j_def)
    have re: "round_even (m * 2 ^ k) j = m * 2 ^ (53 - ?l)"
      using round_even_exact[of "m * 2 ^ (53 - ?l)" j] by (simp add: k power_add mult.assoc)
    have ne: "m * 2 ^ (53 - ?l) \<noteq> 2 ^ 53" using scaled_below(1)[OF m(1) l53] by simp
    have nle: "\<not> e + int ?l - 53 \<le> e - int k" using False by simp
    show ?thesis unfolding round_double_def Let_def t n re
      using hi nz nle ne by simp
  qed
qed

text \<open>
  The rounding at its corners: a tie goes to the even neighbour, half of the
  least subnormal number underflows to zero, the largest finite number is kept,
  and the first number that rounds past it overflows.
\<close>

lemma round_double_corners:
  "round_double False (2 ^ 53 + 1) 0 = DFinite False (2 ^ 52) 1"
  "round_double False (2 ^ 53 + 3) 0 = DFinite False (2 ^ 52 + 2) 1"
  "round_double True 1 (- 1075) = DFinite True 0 (- 1074)"
  "round_double True 3 (- 1075) = DFinite True 2 (- 1074)"
  "round_double False (2 ^ 53 - 1) 971 = DFinite False (2 ^ 53 - 1) 971"
  "round_double False (2 ^ 54 - 1) 970 = DInf False"
  by (simp_all add: round_double_def round_even_def bitlen_pos)

section \<open>Rounding is exact on the numbers of the average\<close>

text \<open>
  A nonzero integer below \<open>2^53\<close>, scaled by a power of two that keeps it in
  the normal range, is a binary64 number: rounding returns it unchanged, in the
  normal form of the format.
\<close>

lemma powi_split:
  assumes "l \<le> 53"
  shows "(2::rat) powi (e + int l - 53) = 2 powi e * 2 powi (- int (53 - l))"
proof -
  have "e + int l - 53 = e + - int (53 - l)" using assms by simp
  then show ?thesis by (simp only: power_int_add[of "2::rat", simplified])
qed

lemma powi_cancel: "(of_nat (m * 2 ^ n) :: rat) * 2 powi (- int n) = of_nat m"
proof -
  have "(2::rat) powi (- int n) = inverse (2 ^ n)"
    by (simp only: power_int_minus power_int_of_nat)
  then show ?thesis by simp
qed

lemma valof_scaled:
  assumes "l \<le> 53"
  shows "valof (DFinite s (m * 2 ^ (53 - l)) (e + int l - 53))
         = (if s then - 1 else 1) * of_nat m * 2 powi e"
proof -
  let ?c = "(if s then - 1 else 1) :: rat"
  have "valof (DFinite s (m * 2 ^ (53 - l)) (e + int l - 53))
        = ?c * of_nat (m * 2 ^ (53 - l)) * (2 powi e * 2 powi (- int (53 - l)))"
    by (simp only: valof.simps powi_split[OF assms])
  also have "\<dots> = ?c * (of_nat (m * 2 ^ (53 - l)) * 2 powi (- int (53 - l))) * 2 powi e"
    by (simp only: mult_ac)
  also have "\<dots> = ?c * of_nat m * 2 powi e"
    by (simp only: powi_cancel)
  finally show ?thesis .
qed

lemma sint_abs_less: "nat \<bar>sint (x :: 32 word)\<bar> < 2 ^ 53"
proof -
  have "- (2 ^ 31) \<le> sint x" "sint x < 2 ^ 31"
    using sint_ge[of x] sint_lt[of x] by simp_all
  then have "\<bar>sint x\<bar> < 2 ^ 53" by simp
  then show ?thesis by (simp add: nat_less_iff)
qed

lemma double_of_int32_0 [simp]: "double_of_int32 0 = DFinite False 0 (- 1074)"
  by (simp add: double_of_int32_def round_double_def)

lemma double_of_int32_nonzero:
  assumes "x \<noteq> 0"
  defines "m \<equiv> nat \<bar>sint x\<bar>"
  shows "double_of_int32 x = DFinite (sint x < 0) (m * 2 ^ (53 - bitlen m)) (int (bitlen m) - 53)"
proof -
  have pos: "0 < m" using assms by (simp add: m_def signed_eq_0_iff)
  have lt: "m < 2 ^ 53" unfolding m_def by (rule sint_abs_less)
  have "bitlen m \<le> 53" using lt by (rule bitlen_le)
  then have "round_double (sint x < 0) (m * 2 ^ 0) (0 - int 0)
        = DFinite (sint x < 0) (m * 2 ^ (53 - bitlen m)) (0 + int (bitlen m) - 53)"
    using pos lt by (intro round_double_exact) simp_all
  then show ?thesis by (simp add: double_of_int32_def m_def)
qed

lemma valof_double_of_int32: "valof (double_of_int32 x) = of_int (sint x)"
proof (cases "x = 0")
  case False
  let ?m = "nat \<bar>sint x\<bar>"
  have l: "bitlen ?m \<le> 53" using sint_abs_less by (rule bitlen_le)
  have "valof (double_of_int32 x) = (if sint x < 0 then - 1 else 1) * of_nat ?m * 2 powi 0"
    using valof_scaled[OF l, of "sint x < 0" ?m 0] double_of_int32_nonzero[OF False] by simp
  also have "\<dots> = of_int (sint x)" by (simp add: of_nat_nat abs_if)
  finally show ?thesis .
qed simp

lemma avg_0: "a + b = 0 \<Longrightarrow> avg a b = DFinite False 0 (- 1074)"
  by (simp add: avg_def d_half_def round_double_def)

lemma avg_nonzero:
  assumes "a + b \<noteq> 0"
  defines "m \<equiv> nat \<bar>sint (a + b)\<bar>"
  shows "avg a b = DFinite (sint (a + b) < 0) (m * 2 ^ (53 - bitlen m)) (- 1 + int (bitlen m) - 53)"
proof -
  let ?l = "bitlen m"
  have pos: "0 < m" using assms by (simp add: m_def signed_eq_0_iff)
  have lt: "m < 2 ^ 53" unfolding m_def by (rule sint_abs_less)
  have l: "?l \<le> 53" using lt by (rule bitlen_le)
  have "avg a b = round_double (sint (a + b) < 0) (m * 2 ^ (53 - ?l) * 2 ^ 52) (int ?l - 53 + - 53)"
    using double_of_int32_nonzero[OF assms(1)] by (simp add: avg_def d_half_def m_def)
  also have "m * 2 ^ (53 - ?l) * 2 ^ 52 = m * 2 ^ (105 - ?l)"
  proof -
    have "53 - ?l + 52 = 105 - ?l" using l by simp
    then have "(2::nat) ^ (53 - ?l) * 2 ^ 52 = 2 ^ (105 - ?l)"
      by (simp only: power_add[symmetric])
    then show ?thesis by (simp only: mult.assoc)
  qed
  also have "int ?l - 53 + - 53 = - 1 - int (105 - ?l)" using l by simp
  also have "round_double (sint (a + b) < 0) (m * 2 ^ (105 - ?l)) (- 1 - int (105 - ?l))
      = DFinite (sint (a + b) < 0) (m * 2 ^ (53 - ?l)) (- 1 + int ?l - 53)"
    using pos lt l by (intro round_double_exact) simp_all
  finally show ?thesis .
qed

lemma valof_avg: "valof (avg a b) = of_int (sint (a + b)) / 2"
proof (cases "a + b = 0")
  case True
  then show ?thesis by (simp add: avg_0)
next
  case False
  let ?m = "nat \<bar>sint (a + b)\<bar>"
  have l: "bitlen ?m \<le> 53" using sint_abs_less by (rule bitlen_le)
  have "valof (avg a b) = (if sint (a + b) < 0 then - 1 else 1) * of_nat ?m * 2 powi (- 1)"
    using valof_scaled[OF l, of "sint (a + b) < 0" ?m "- 1"] avg_nonzero[OF False] by simp
  also have "\<dots> = of_int (sint (a + b)) / 2" by (simp add: of_nat_nat abs_if)
  finally show ?thesis .
qed

lemma avg_finite: "is_finite (avg a b)"
  by (cases "a + b = 0") (simp_all add: avg_0 avg_nonzero)

lemma avg_binary64: "is_binary64 (avg a b)"
proof (cases "a + b = 0")
  case True
  then show ?thesis by (simp add: avg_0 is_binary64_def)
next
  case False
  let ?m = "nat \<bar>sint (a + b)\<bar>"
  have pos: "0 < ?m" using False by (simp add: signed_eq_0_iff)
  have l: "bitlen ?m \<le> 53" using sint_abs_less by (rule bitlen_le)
  have "0 < bitlen ?m" using pos by (simp add: bitlen_pos)
  then show ?thesis
    using scaled_below[OF pos l] l by (simp add: avg_nonzero[OF False] is_binary64_def)
qed

section \<open>The 32-bit sum\<close>

lemma sint_add_wrap:
  "sint (a + b :: 32 word) = (sint a + sint b + 2 ^ 31) mod 2 ^ 32 - 2 ^ 31"
proof -
  have "sint (a + b) = signed_take_bit 31 (sint a + sint b)"
    by (simp add: sint_word_ariths)
  also have "\<dots> = take_bit (Suc 31) (sint a + sint b + 2 ^ 31) - 2 ^ 31"
    by (rule signed_take_bit_eq_take_bit_shift)
  also have "\<dots> = (sint a + sint b + 2 ^ 31) mod 2 ^ 32 - 2 ^ 31"
    by (simp add: take_bit_eq_mod)
  finally show ?thesis .
qed

lemma sint_add_exact:
  assumes "- (2 ^ 31) \<le> sint a + sint b" "sint a + sint b < 2 ^ 31"
  shows "sint (a + b :: 32 word) = sint a + sint b"
  using assms by (simp add: sint_add_wrap)

lemma mod_shift_down: "n \<le> (x::int) \<Longrightarrow> x < 2 * n \<Longrightarrow> x mod n = x - n"
proof -
  assume "n \<le> x" "x < 2 * n"
  then have "(x - n) mod n = x - n" by (intro mod_pos_pos_trivial) simp_all
  then show ?thesis by simp
qed

lemma mod_shift_up: "- n \<le> (x::int) \<Longrightarrow> x < 0 \<Longrightarrow> x mod n = x + n"
proof -
  assume "- n \<le> x" "x < 0"
  then have "(x + n) mod n = x + n" by (intro mod_pos_pos_trivial) simp_all
  then show ?thesis by simp
qed

lemma sint_add_overflow:
  fixes a b :: "32 word"
  shows "2 ^ 31 \<le> sint a + sint b \<Longrightarrow> sint (a + b) = sint a + sint b - 2 ^ 32"
    and "sint a + sint b < - (2 ^ 31) \<Longrightarrow> sint (a + b) = sint a + sint b + 2 ^ 32"
proof -
  have r: "- (2 ^ 31) \<le> sint a" "sint a < 2 ^ 31" "- (2 ^ 31) \<le> sint b" "sint b < 2 ^ 31"
    using sint_ge[of a] sint_lt[of a] sint_ge[of b] sint_lt[of b] by simp_all
  show "sint (a + b) = sint a + sint b - 2 ^ 32" if "2 ^ 31 \<le> sint a + sint b"
  proof -
    have "(sint a + sint b + 2 ^ 31) mod 2 ^ 32 = sint a + sint b + 2 ^ 31 - 2 ^ 32"
      using that r by (intro mod_shift_down) simp_all
    then show ?thesis by (simp only: sint_add_wrap)
  qed
  show "sint (a + b) = sint a + sint b + 2 ^ 32" if "sint a + sint b < - (2 ^ 31)"
  proof -
    have "(sint a + sint b + 2 ^ 31) mod 2 ^ 32 = sint a + sint b + 2 ^ 31 + 2 ^ 32"
      using that r by (intro mod_shift_up) simp_all
    then show ?thesis by (simp only: sint_add_wrap)
  qed
qed

lemma valof_d_half: "valof d_half = 1 / 2"
  by (simp add: d_half_def)

section \<open>The sum of two converted integers\<close>

lemma double_of_int32_form:
  obtains n where "double_of_int32 x = DFinite (sint x < 0) (nat \<bar>sint x\<bar> * 2 ^ n) (- int n)"
proof (cases "x = 0")
  case True
  have m0: "nat \<bar>sint x\<bar> = 0" and s0: "(sint x < 0) = False" using True by simp_all
  have e: "- int 1074 = - 1074" by simp
  have "double_of_int32 x = DFinite False 0 (- 1074)" using True by simp
  then have "double_of_int32 x = DFinite (sint x < 0) (nat \<bar>sint x\<bar> * 2 ^ 1074) (- int 1074)"
    by (simp only: m0 s0 e mult_zero_left)
  then show ?thesis by (rule that)
next
  case False
  let ?m = "nat \<bar>sint x\<bar>"
  have "bitlen ?m \<le> 53" using sint_abs_less by (rule bitlen_le)
  then have e: "int (bitlen ?m) - 53 = - int (53 - bitlen ?m)" by simp
  have "double_of_int32 x = DFinite (sint x < 0) (?m * 2 ^ (53 - bitlen ?m)) (- int (53 - bitlen ?m))"
    using double_of_int32_nonzero[OF False] by (simp only: e)
  then show ?thesis by (rule that)
qed

lemma signed_scaled: "signed (A < 0) (nat \<bar>A\<bar> * 2 ^ n) = A * 2 ^ n"
  by (simp add: signed_def)

lemma dadd_scaled_ints:
  "dadd (DFinite (A < 0) (nat \<bar>A\<bar> * 2 ^ na) (- int na))
        (DFinite (B < 0) (nat \<bar>B\<bar> * 2 ^ nb) (- int nb))
   = (if A + B = 0 then DFinite False 0 (- 1074)
      else round_double (A + B < 0) (nat \<bar>A + B\<bar> * 2 ^ max na nb) (0 - int (max na nb)))"
proof -
  let ?n = "max na nb"
  have g: "min (- int na) (- int nb) = - int ?n" by simp
  have da: "nat (- int na - - int ?n) = ?n - na" and db: "nat (- int nb - - int ?n) = ?n - nb"
    by simp_all
  have pa: "nat \<bar>A\<bar> * 2 ^ na * 2 ^ (?n - na) = nat \<bar>A\<bar> * 2 ^ ?n"
    and pb: "nat \<bar>B\<bar> * 2 ^ nb * 2 ^ (?n - nb) = nat \<bar>B\<bar> * 2 ^ ?n"
    by (simp_all add: mult.assoc flip: power_add)
  have z: "signed (A < 0) (nat \<bar>A\<bar> * 2 ^ ?n) + signed (B < 0) (nat \<bar>B\<bar> * 2 ^ ?n)
           = (A + B) * 2 ^ ?n"
    by (simp only: signed_scaled distrib_right)
  have z0: "((A + B) * 2 ^ ?n = 0) = (A + B = 0)" by simp
  have zneg: "((A + B) * 2 ^ ?n < 0) = (A + B < 0)" by (simp add: mult_less_0_iff)
  have zabs: "nat \<bar>(A + B) * 2 ^ ?n\<bar> = nat \<bar>A + B\<bar> * 2 ^ ?n"
    by (simp add: abs_mult nat_mult_distrib nat_power_eq)
  have s0: "A + B = 0 \<Longrightarrow> (A < 0 \<and> B < 0) = False" by auto
  show ?thesis
    unfolding dadd.simps Let_def g da db pa pb z z0 zneg zabs
    using s0 by simp
qed

lemma dadd_double_of_int32:
  assumes "- (2 ^ 31) \<le> sint a + sint b" and "sint a + sint b < 2 ^ 31"
  shows "dadd (double_of_int32 a) (double_of_int32 b) = double_of_int32 (a + b)"
proof -
  let ?A = "sint a" and ?B = "sint b"
  have sum: "sint (a + b) = ?A + ?B" using assms by (rule sint_add_exact)
  obtain na where a: "double_of_int32 a = DFinite (?A < 0) (nat \<bar>?A\<bar> * 2 ^ na) (- int na)"
    by (rule double_of_int32_form)
  obtain nb where b: "double_of_int32 b = DFinite (?B < 0) (nat \<bar>?B\<bar> * 2 ^ nb) (- int nb)"
    by (rule double_of_int32_form)
  let ?m = "nat \<bar>?A + ?B\<bar>"
  show ?thesis
  proof (cases "a + b = 0")
    case True
    then have "?A + ?B = 0" using sum by simp
    then show ?thesis unfolding a b dadd_scaled_ints using True by simp
  next
    case False
    then have "sint (a + b) \<noteq> 0" by (simp add: signed_eq_0_iff)
    then have nz: "?A + ?B \<noteq> 0" unfolding sum .
    have m: "?m = nat \<bar>sint (a + b)\<bar>" by (simp only: sum)
    have pos: "0 < ?m" using nz by simp
    have lt: "?m < 2 ^ 53" unfolding m by (rule sint_abs_less)
    have l: "bitlen ?m \<le> 53" using lt by (rule bitlen_le)
    have "round_double (?A + ?B < 0) (?m * 2 ^ max na nb) (0 - int (max na nb))
          = DFinite (?A + ?B < 0) (?m * 2 ^ (53 - bitlen ?m)) (0 + int (bitlen ?m) - 53)"
      using pos lt l by (intro round_double_exact) simp_all
    also have "\<dots> = double_of_int32 (a + b)"
      unfolding double_of_int32_nonzero[OF False] sum by simp
    finally show ?thesis unfolding a b dadd_scaled_ints using nz by simp
  qed
qed

section \<open>Program text without effects\<close>

text \<open>
  Reads and assignments are visible in the semantics: an assignment changes the
  memory, and what a read delivers depends on it.
\<close>

lemma effects_are_visible:
  "eval t p n [] (Assign ''g'' (Lit (VInt 1))) Map.empty = Some (VInt 1, [''g'' \<mapsto> VInt 1])"
  "eval t p n [] (Load ''g'') [''g'' \<mapsto> VInt 1] = Some (VInt 1, [''g'' \<mapsto> VInt 1])"
  "eval t p n [] (Load ''g'') [''g'' \<mapsto> VInt 2] = Some (VInt 2, [''g'' \<mapsto> VInt 2])"
  by simp_all

text \<open>
  The frame property: in a function table whose bodies are free of effects, an
  expression free of effects leaves the memory as it found it and evaluates to
  the same value in every memory.
\<close>

lemma effect_free_program_body:
  "effect_free_program p \<Longrightarrow> map_of p f = Some fn \<Longrightarrow> effect_free (body fn)"
  by (auto simp add: effect_free_program_def list_all_iff dest!: map_of_SomeD)

lemma effect_free_frame:
  assumes p: "effect_free_program p"
  shows "effect_free e \<Longrightarrow> eval t p n args e mem = Some (v, mem')
         \<Longrightarrow> mem' = mem \<and> eval t p n args e mem2 = Some (v, mem2)"
    and "list_all effect_free es \<Longrightarrow> evals t p n args es mem = Some (vs, mem')
         \<Longrightarrow> mem' = mem \<and> evals t p n args es mem2 = Some (vs, mem2)"
  using p
proof (induction t p n args e mem and t p n args es mem arbitrary: v mem' mem2 and vs mem' mem2
    rule: eval_evals.induct)
  case (1 t p n args i mem)
  then show ?case by (auto split: if_splits)
next
  case (2 t p n args v mem)
  then show ?case by auto
next
  case (3 t p n args e1 e2 mem)
  from "3.prems"(2) obtain v1 m1 v2 m2 where
    e1: "eval t p n args e1 mem = Some (v1, m1)" and
    e2: "eval t p n args e2 m1 = Some (v2, m2)" and
    r: "c_add v1 v2 = Some v" "mem' = m2"
    by (auto split: option.splits)
  from "3.prems"(1) have p1: "effect_free e1" and p2: "effect_free e2" by simp_all
  from "3.IH"(1)[OF p1 e1 "3.prems"(3)]
  have f1: "m1 = mem" "eval t p n args e1 mem2 = Some (v1, mem2)" by simp_all
  from "3.IH"(2)[OF e1 refl p2 e2 "3.prems"(3)]
  have f2: "m2 = m1" "eval t p n args e2 mem2 = Some (v2, mem2)" by simp_all
  show ?case using f1 f2 r by simp
next
  case (4 t p n args e1 e2 mem)
  from "4.prems"(2) obtain v1 m1 v2 m2 where
    e1: "eval t p n args e1 mem = Some (v1, m1)" and
    e2: "eval t p n args e2 m1 = Some (v2, m2)" and
    r: "c_mul v1 v2 = Some v" "mem' = m2"
    by (auto split: option.splits)
  from "4.prems"(1) have p1: "effect_free e1" and p2: "effect_free e2" by simp_all
  from "4.IH"(1)[OF p1 e1 "4.prems"(3)]
  have f1: "m1 = mem" "eval t p n args e1 mem2 = Some (v1, mem2)" by simp_all
  from "4.IH"(2)[OF e1 refl p2 e2 "4.prems"(3)]
  have f2: "m2 = m1" "eval t p n args e2 mem2 = Some (v2, mem2)" by simp_all
  show ?case using f1 f2 r by simp
next
  case (5 t p n args mem)
  then show ?case by auto
next
  case (6 t p args f es mem)
  then show ?case by simp
next
  case (7 t p n args f es mem)
  from "7.prems"(2) obtain ws m1 fn w m2 where
    es: "evals t p (Suc n) args es mem = Some (ws, m1)" and
    fn: "map_of p f = Some fn" "length ws = nparams fn" and
    b: "eval t p n ws (body fn) m1 = Some (w, m2)" and
    r: "convert (ret fn) w = Some v" "mem' = m2"
    by (auto split: option.splits if_splits)
  from "7.prems"(1) have fes: "list_all effect_free es" by simp
  have pb: "effect_free (body fn)" using "7.prems"(3) fn(1) by (rule effect_free_program_body)
  from "7.IH"(1)[OF fes es "7.prems"(3)]
  have f1: "m1 = mem" "evals t p (Suc n) args es mem2 = Some (ws, mem2)" by simp_all
  from "7.IH"(2)[OF es refl fn(1) fn(2) pb b "7.prems"(3)]
  have f2: "m2 = m1" "eval t p n ws (body fn) mem2 = Some (w, mem2)" by simp_all
  show ?case using f1 f2 fn r by simp
next
  case (8 t p n args g mem)
  then show ?case by simp
next
  case (9 t p n args g e mem)
  then show ?case by simp
next
  case (10 t p n args mem)
  then show ?case by auto
next
  case (11 t p n args e es mem)
  from "11.prems"(2) obtain w m1 ws m2 where
    e: "eval t p n args e mem = Some (w, m1)" and
    es: "evals t p n args es m1 = Some (ws, m2)" and
    r: "vs = w # ws" "mem' = m2"
    by (auto split: option.splits)
  from "11.prems"(1) have p1: "effect_free e" and p2: "list_all effect_free es" by simp_all
  from "11.IH"(1)[OF p1 e "11.prems"(3)]
  have f1: "m1 = mem" "eval t p n args e mem2 = Some (w, mem2)" by simp_all
  from "11.IH"(2)[OF e refl p2 es "11.prems"(3)]
  have f2: "m2 = m1" "evals t p n args es mem2 = Some (ws, mem2)" by simp_all
  show ?case using f1 f2 r by simp
qed

lemma sample_c_effect_free: "effect_free_program sample_c"
  by (simp add: effect_free_program_def sample_c_def)

text \<open>
  The program text of each export evaluates to the value of the function that
  embeds it, once the fuel covers the one nested call of the JNI wrapper.
\<close>

lemma exec_call_returned: "exec_call t (Suc (Suc n)) c mem = Some (returned t c, mem)"
  by (cases c)
    (simp_all add: exec_call_def sample_c_def avg_def ptrSize_def DllMain_def
      Java_deltix_NativeUtilsSample_00024Imports_avg_def)

lemma exec_calls_returned:
  "exec_calls t (Suc (Suc n)) cs mem = Some (map (returned t) cs, mem)"
  by (induction cs) (simp_all add: exec_call_returned)

section \<open>The average\<close>

text \<open>
  C1.  For all \<^verbatim>\<open>int32_t\<close> \<open>a\<close> and \<open>b\<close>, \<open>avg a b\<close> is \<open>(a + b) * 0.5\<close>: the sum is
  the 32-bit signed integer sum, taken before the conversion to \<^verbatim>\<open>double\<close>, and
  the result is the binary64 product of the converted sum with \<open>0.5\<close>.  The
  conversion and the product are exact, so the result is the finite binary64
  number whose value is half the 32-bit sum.
\<close>

theorem avg_int_sum_times_half:
  "avg a b = dmul (double_of_int32 (a + b)) d_half
   \<and> sint (a + b) = signed_take_bit 31 (sint a + sint b)
   \<and> is_finite (avg a b) \<and> is_binary64 (avg a b)
   \<and> valof (double_of_int32 (a + b)) = of_int (sint (a + b))
   \<and> valof d_half = 1 / 2
   \<and> valof (avg a b) = of_int (sint (a + b)) * (1 / 2)"
  by (simp add: avg_finite avg_binary64 valof_double_of_int32 valof_avg sint_word_ariths)
    (simp add: avg_def d_half_def)

text \<open>
  C2, as stated: \<open>avg a b\<close> is the binary64 sum of the conversions of \<open>a\<close> and \<open>b\<close>,
  multiplied by \<open>0.5\<close>.  This fails where the 32-bit sum overflows: for
  \<open>a = b = 2147483647\<close> the integer sum wraps to \<open>-2\<close> and \<open>avg\<close> returns \<open>-1.0\<close>,
  while the floating-point sum of the conversions is \<open>4294967294.0\<close>, half of
  which is \<open>2147483647.0\<close>.
\<close>

theorem avg_float_sum_counterexample:
  "valof (avg 2147483647 2147483647) = - 1
   \<and> valof (dmul (dadd (double_of_int32 2147483647) (double_of_int32 2147483647)) d_half)
       = 2147483647
   \<and> avg 2147483647 2147483647
       \<noteq> dmul (dadd (double_of_int32 2147483647) (double_of_int32 2147483647)) d_half"
proof -
  let ?d = "DFinite False (2147483647 * 2 ^ 22)"
  have v: "valof (avg 2147483647 2147483647) = - 1"
    by (simp add: valof_avg)
  have c: "double_of_int32 2147483647 = ?d (- 22)"
    by (simp add: double_of_int32_def round_double_def bitlen_pos round_even_def)
  have s: "dadd (?d (- 22)) (?d (- 22)) = ?d (- 21)"
    by (simp add: signed_def round_double_def Let_def bitlen_pos round_even_def)
  have p: "dmul (?d (- 21)) d_half = ?d (- 22)"
    by (simp add: d_half_def round_double_def bitlen_pos round_even_def)
  have w: "valof (dmul (dadd (double_of_int32 2147483647) (double_of_int32 2147483647)) d_half)
           = 2147483647"
    by (simp only: c s p) simp
  have "avg 2147483647 2147483647
        \<noteq> dmul (dadd (double_of_int32 2147483647) (double_of_int32 2147483647)) d_half"
  proof
    assume "avg 2147483647 2147483647
            = dmul (dadd (double_of_int32 2147483647) (double_of_int32 2147483647)) d_half"
    then have "valof (avg 2147483647 2147483647) = 2147483647" by (simp only: w)
    then show False by (simp only: v)
  qed
  with v w show ?thesis by blast
qed

text \<open>
  C2, amended.  For all \<^verbatim>\<open>int32_t\<close> \<open>a\<close> and \<open>b\<close> whose sum lies in the \<^verbatim>\<open>int32_t\<close>
  range, \<open>avg a b\<close> equals the binary64 sum of the conversions of \<open>a\<close> and \<open>b\<close>,
  multiplied by \<open>0.5\<close>.
\<close>

theorem avg_float_sum_without_overflow:
  assumes "- (2 ^ 31) \<le> sint a + sint b" and "sint a + sint b < 2 ^ 31"
  shows "avg a b = dmul (dadd (double_of_int32 a) (double_of_int32 b)) d_half"
  using assms by (simp only: avg_def dadd_double_of_int32)

theorem avg_float_sum_without_overflow_witness:
  "- (2 ^ 31) \<le> sint (1 :: int32_t) + sint (2 :: int32_t)
   \<and> sint (1 :: int32_t) + sint (2 :: int32_t) < 2 ^ 31
   \<and> avg 1 2 = dmul (dadd (double_of_int32 1) (double_of_int32 2)) d_half"
  using avg_float_sum_without_overflow [of 1 2] by simp

text \<open>
  C3.  For all \<^verbatim>\<open>int32_t\<close> \<open>a\<close> and \<open>b\<close> whose sum does not overflow the \<^verbatim>\<open>int32_t\<close>
  range, \<open>avg a b\<close> is the exact rational \<open>(a + b) / 2\<close>: the sum converts
  exactly to a double, and the multiplication by \<open>0.5\<close> is exact.
\<close>

theorem avg_exact_without_overflow:
  assumes "- (2 ^ 31) \<le> sint a + sint b" and "sint a + sint b < 2 ^ 31"
  shows "is_finite (avg a b)
         \<and> valof (double_of_int32 (a + b)) = of_int (sint a + sint b)
         \<and> valof (avg a b) = valof (double_of_int32 (a + b)) * valof d_half
         \<and> valof (avg a b) = of_int (sint a + sint b) / 2"
  using assms
  by (simp add: avg_finite valof_double_of_int32 valof_avg sint_add_exact d_half_def)

theorem avg_exact_without_overflow_witness:
  "- (2 ^ 31) \<le> sint (1 :: int32_t) + sint (2 :: int32_t)
   \<and> sint (1 :: int32_t) + sint (2 :: int32_t) < 2 ^ 31
   \<and> is_finite (avg 1 2)
   \<and> valof (double_of_int32 (1 + 2)) = 3
   \<and> valof (avg 1 2) = 3 / 2"
  using avg_exact_without_overflow [of 1 2] by (simp add: valof_d_half)

text \<open>
  C4.  For all \<^verbatim>\<open>int32_t\<close> \<open>a\<close>, \<open>b\<close> and all values of the two handles, the
  JNI-named export returns what \<open>avg a b\<close> returns; the handles have no
  influence on the result.
\<close>

theorem jni_avg_is_avg:
  "Java_deltix_NativeUtilsSample_00024Imports_avg env obj a b = avg a b
   \<and> Java_deltix_NativeUtilsSample_00024Imports_avg env obj a b
       = Java_deltix_NativeUtilsSample_00024Imports_avg env' obj' a b"
  by (simp add: Java_deltix_NativeUtilsSample_00024Imports_avg_def)

text \<open>
  C6.  For all \<^verbatim>\<open>int32_t\<close> \<open>a\<close> and \<open>b\<close> whose sum lies outside the \<^verbatim>\<open>int32_t\<close>
  range, \<open>avg\<close> still returns a finite double, with no error value: half of
  the sum taken modulo \<open>2^32\<close> into the \<^verbatim>\<open>int32_t\<close> range, which is the sum less
  \<open>2^32\<close> after an overflow upwards and the sum plus \<open>2^32\<close> after one downwards.
\<close>

theorem avg_overflow_wraps:
  assumes "sint a + sint b < - (2 ^ 31) \<or> 2 ^ 31 \<le> sint a + sint b"
  shows "is_finite (avg a b)
         \<and> valof (avg a b) = of_int ((sint a + sint b + 2 ^ 31) mod 2 ^ 32 - 2 ^ 31) * valof d_half
         \<and> valof (avg a b)
             = of_int (if 2 ^ 31 \<le> sint a + sint b then sint a + sint b - 2 ^ 32
                       else sint a + sint b + 2 ^ 32) / 2"
proof -
  have "valof (avg a b) = of_int (sint (a + b)) * valof d_half"
    by (simp only: valof_avg valof_d_half times_divide_eq_right mult_1_right)
  then have "valof (avg a b) = of_int ((sint a + sint b + 2 ^ 31) mod 2 ^ 32 - 2 ^ 31) * valof d_half"
    by (simp only: sint_add_wrap)
  moreover have "sint (a + b) = (if 2 ^ 31 \<le> sint a + sint b then sint a + sint b - 2 ^ 32
                       else sint a + sint b + 2 ^ 32)"
    using assms sint_add_overflow[of a b] by auto
  then have "valof (avg a b)
             = of_int (if 2 ^ 31 \<le> sint a + sint b then sint a + sint b - 2 ^ 32
                       else sint a + sint b + 2 ^ 32) / 2"
    by (simp only: valof_avg)
  ultimately show ?thesis using avg_finite by blast
qed

theorem avg_overflow_wraps_witness:
  "2 ^ 31 \<le> sint (2147483647 :: int32_t) + sint (2147483647 :: int32_t)
   \<and> is_finite (avg 2147483647 2147483647)
   \<and> valof (avg 2147483647 2147483647) = - 1"
  using avg_overflow_wraps [of 2147483647 2147483647] by simp

text \<open>
  C7.  \<open>avg 2 4\<close> is exactly \<open>3.0\<close>, \<open>avg (-1) 1\<close> is exactly \<open>0.0\<close> (the positive
  zero), and \<open>avg 1 2\<close> is exactly \<open>1.5\<close>.
\<close>

theorem avg_examples:
  "avg 2 4 = DFinite False (3 * 2 ^ 51) (- 51) \<and> valof (avg 2 4) = 3
   \<and> avg (- 1) 1 = DFinite False 0 (- 1074) \<and> valof (avg (- 1) 1) = 0
   \<and> avg 1 2 = DFinite False (3 * 2 ^ 51) (- 52) \<and> valof (avg 1 2) = 3 / 2"
  by (simp add: avg_def double_of_int32_def round_double_def d_half_def bitlen_pos
      round_even_def)

text \<open>
  C10.  \<open>avg\<close> is commutative: \<open>avg a b = avg b a\<close> for all \<^verbatim>\<open>int32_t\<close> \<open>a\<close>, \<open>b\<close>.
\<close>

theorem avg_commute: "avg a b = avg b a"
  by (simp add: avg_def add.commute)

section \<open>The pointer size\<close>

text \<open>
  C5.  \<open>ptrSize\<close> takes no argument and returns \<^verbatim>\<open>sizeof(intptr_t)\<close>, the width of
  a pointer of the build target in bytes: 8 on a 64-bit target, 4 on a 32-bit
  target, and so one of 4 and 8 on each of them.
\<close>

theorem ptrSize_is_pointer_width:
  "ptrSize t = word_of_nat (sizeof_intptr_t t)
   \<and> (pointer_bits t = 64 \<longrightarrow> sizeof_intptr_t t = 8 \<and> ptrSize t = 8)
   \<and> (pointer_bits t = 32 \<longrightarrow> sizeof_intptr_t t = 4 \<and> ptrSize t = 4)
   \<and> (pointer_bits t = 32 \<or> pointer_bits t = 64 \<longrightarrow> ptrSize t = 4 \<or> ptrSize t = 8)"
  by (auto simp add: ptrSize_def sizeof_intptr_t_def)

theorem ptrSize_is_pointer_width_witness:
  "pointer_bits \<lparr>pointer_bits = 64\<rparr> = 64 \<and> ptrSize \<lparr>pointer_bits = 64\<rparr> = 8
   \<and> pointer_bits \<lparr>pointer_bits = 32\<rparr> = 32 \<and> ptrSize \<lparr>pointer_bits = 32\<rparr> = 4"
  using ptrSize_is_pointer_width [of "\<lparr>pointer_bits = 64\<rparr>"]
    ptrSize_is_pointer_width [of "\<lparr>pointer_bits = 32\<rparr>"]
  by simp

section \<open>The entry point and the calls\<close>

text \<open>
  C8.  \<open>DllMain\<close> returns 1, which is true, for all values of its instance
  handle, reason code and reserved argument, and a call of it leaves the
  memory as it was.
\<close>

theorem DllMain_true_no_effect:
  "DllMain instance reason reserved = 1
   \<and> DllMain instance reason reserved \<noteq> 0
   \<and> invoke t (Call_DllMain instance reason reserved) mem = (Ret_int 1, mem)"
  by (simp add: DllMain_def)

text \<open>
  C9.  Every exported function is deterministic and free of side effects.  No
  body of sample.c contains a read or a write of a global object; a call of an
  export returns, in every memory, the value of its function and leaves the
  memory as it was, so two calls with equal arguments return equal values; and
  in every sequence of calls, however the calls of several threads are
  interleaved, each call returns the value it returns on its own.
\<close>

theorem exports_deterministic_effect_free:
  "effect_free_program sample_c
   \<and> exec_call t (Suc (Suc n)) c mem = Some (returned t c, mem)
   \<and> map_option fst (exec_call t (Suc (Suc n)) c mem)
       = map_option fst (exec_call t (Suc (Suc k)) c mem')
   \<and> exec_calls t (Suc (Suc n)) cs mem = Some (map (returned t) cs, mem)"
  by (simp add: sample_c_effect_free exec_call_returned exec_calls_returned)

end
